theory Spec2Isabelle
  imports Main
begin

section \<open>Text frames\<close>

text \<open>
  Every message of the wire protocol is one text frame, a Python \<open>str\<close>. A frame is
  modelled as a \<open>string\<close> whose characters are the code points below 256.
  \<open>lower\<close> is \<open>str.lower()\<close> on that range: the letters A to Z and the
  capital letters of Latin-1 (192 to 222, the multiplication sign 215 apart) move 32 code
  points up, every other character stays.
\<close>

definition lower_char :: "char \<Rightarrow> char" where
  "lower_char c =
     (let n = (of_char c :: nat)
      in if (65 \<le> n \<and> n \<le> 90) \<or> (192 \<le> n \<and> n \<le> 222 \<and> n \<noteq> 215)
         then char_of (n + 32) else c)"

definition lower :: "string \<Rightarrow> string" where
  "lower s = map lower_char s"

text \<open>
  The f-strings of the servers format integers in decimal: \<open>str_nat\<close> for a length
  (\<open>client_id\<close>), \<open>str_int\<close> for the counter, an unbounded Python \<open>int\<close>.
\<close>

fun str_nat :: "nat \<Rightarrow> string" where
  "str_nat n =
     (if n < 10 then [char_of (48 + n)]
      else str_nat (n div 10) @ [char_of (48 + n mod 10)])"

declare str_nat.simps [simp del]

definition str_int :: "int \<Rightarrow> string" where
  "str_int k = (if k < 0 then CHR ''-'' # str_nat (nat (- k)) else str_nat (nat k))"

text \<open>
  The specification's reading of a command given "in any letter case": the frame spells
  the lower-case word, each letter either as it stands or as its capital. These three
  definitions follow the specification's words; the servers and clients below never use
  them, they compare \<open>lower message\<close> with the word.
\<close>

definition ascii_lowercase :: "char \<Rightarrow> bool" where
  "ascii_lowercase c = (97 \<le> (of_char c :: nat) \<and> (of_char c :: nat) \<le> 122)"

definition upper_ascii :: "char \<Rightarrow> char" where
  "upper_ascii c = (if ascii_lowercase c then char_of ((of_char c :: nat) - 32) else c)"

definition spec_any_letter_case :: "string \<Rightarrow> string \<Rightarrow> bool" where
  "spec_any_letter_case word s = list_all2 (\<lambda>w c. c = w \<or> c = upper_ascii w) word s"

section \<open>The state shared by the handlers of one server process\<close>

text \<open>
  \<open>03_chat_server.py\<close> keeps the module-level list \<open>connected_clients\<close>;
  \<open>05_counter_server.py\<close> keeps the same list and the module-level integer
  \<open>counter\<close>. A connection (a websocket object) is a value of type \<open>'c\<close>, compared
  by identity. The field \<open>wire\<close> is the observable effect of the handler steps that
  are run: every call \<open>await client.send(...)\<close> they make, in the order the calls
  were made, \<open>Sent\<close> when the call returned and \<open>Failed\<close> when it raised. It is
  not a variable of the program: what other handlers send while a step is suspended is
  not recorded in it. The \<open>print\<close> calls are not modelled.
\<close>

datatype error = ValueError | ConnectionClosed

datatype 'c frame = Sent 'c string | Failed 'c string

fun target :: "'c frame \<Rightarrow> 'c" where
  "target (Sent client payload) = client"
| "target (Failed client payload) = client"

record 'c server =
  connected_clients :: "'c list"
  wire :: "'c frame list"

record 'c counter_server = "'c server" +
  counter :: int

text \<open>
  The handlers are coroutines on one event loop: while a handler is suspended in
  \<open>await client.send(...)\<close>, the other handlers of the process run. What they can do
  to the shared variables is what the handler code does to them: append a connection
  (registration), remove one (the \<open>finally\<close> block, or the \<open>except\<close> block of a
  broadcast of theirs), add one to the counter, or set it to zero. A \<open>moment\<close> is what
  happens at one \<open>await\<close>: whether the call returns (\<open>True\<close>) or raises, and the
  actions of the other handlers during the suspension, in order. A broadcast runs under
  a list of moments, one for each \<open>await\<close> it makes, in the order it makes them; the
  awaits after the last listed moment return with nothing happening meanwhile.
\<close>

datatype 'c action = Connects 'c | Leaves 'c | Increments | Resets

type_synonym 'c moment = "bool \<times> 'c action list"

definition next_moment :: "'c moment list \<Rightarrow> 'c moment" where
  "next_moment sched = (case sched of [] \<Rightarrow> (True, []) | m # later \<Rightarrow> m)"

text \<open>\<open>list.remove(x)\<close>: drops the first element equal to \<open>x\<close>, raises ValueError when there is none.\<close>

definition list_remove :: "'a \<Rightarrow> 'a list \<Rightarrow> error + 'a list" where
  "list_remove x xs = (if x \<in> set xs then Inr (remove1 x xs) else Inl ValueError)"

text \<open>
  Registration, the first two statements of both handlers:
  \<open>connected_clients.append(websocket); client_id = len(connected_clients)\<close>.
\<close>

definition register :: "'c \<Rightarrow> ('c, 'm) server_scheme \<Rightarrow> nat \<times> ('c, 'm) server_scheme" where
  "register websocket s =
     (let s1 = s\<lparr>connected_clients := connected_clients s @ [websocket]\<rparr>
      in (length (connected_clients s1), s1))"

text \<open>
  The \<open>finally\<close> block of both handlers:
  \<open>if websocket in connected_clients: connected_clients.remove(websocket)\<close>.
\<close>

definition handler_finally ::
  "'c \<Rightarrow> ('c, 'm) server_scheme \<Rightarrow> error option \<times> ('c, 'm) server_scheme" where
  "handler_finally websocket s =
     (if websocket \<in> set (connected_clients s) then
        (case list_remove websocket (connected_clients s) of
           Inl e \<Rightarrow> (Some e, s)
         | Inr cs \<Rightarrow> (None, s\<lparr>connected_clients := cs\<rparr>))
      else (None, s))"

text \<open>
  The effect of another handler's action on the shared state. The chat server has no
  counter and no handler code that changes one: there the two counter actions do nothing.
\<close>

fun registry_effect :: "'c action \<Rightarrow> ('c, 'm) server_scheme \<Rightarrow> ('c, 'm) server_scheme" where
  "registry_effect (Connects c) s = snd (register c s)"
| "registry_effect (Leaves c) s = snd (handler_finally c s)"
| "registry_effect Increments s = s"
| "registry_effect Resets s = s"

fun counter_effect :: "'c action \<Rightarrow> 'c counter_server \<Rightarrow> 'c counter_server" where
  "counter_effect (Connects c) s = snd (register c s)"
| "counter_effect (Leaves c) s = snd (handler_finally c s)"
| "counter_effect Increments s = s\<lparr>counter := counter s + 1\<rparr>"
| "counter_effect Resets s = s\<lparr>counter := 0\<rparr>"

fun keeps_registry :: "'c action \<Rightarrow> bool" where
  "keeps_registry (Connects c) = False"
| "keeps_registry (Leaves c) = False"
| "keeps_registry Increments = True"
| "keeps_registry Resets = True"

definition steady :: "'c moment list \<Rightarrow> bool" where
  "steady sched = list_all (\<lambda>m. fst m \<and> list_all keeps_registry (snd m)) sched"

text \<open>
  \<open>await client.send(payload)\<close> at a given moment: the other handlers act (\<open>others\<close>
  is the effect of one action in this server), the call is recorded on the wire, and the
  result says whether it returned (\<open>True\<close>) or raised (\<open>False\<close>).
\<close>

definition await_send ::
  "('c action \<Rightarrow> ('c, 'm) server_scheme \<Rightarrow> ('c, 'm) server_scheme) \<Rightarrow> 'c moment \<Rightarrow> 'c \<Rightarrow> string \<Rightarrow>
     ('c, 'm) server_scheme \<Rightarrow> bool \<times> ('c, 'm) server_scheme" where
  "await_send others m client payload s =
     (let s1 = foldl (\<lambda>t a. others a t) s (snd m)
      in if fst m then (True, s1\<lparr>wire := wire s1 @ [Sent client payload]\<rparr>)
         else (False, s1\<lparr>wire := wire s1 @ [Failed client payload]\<rparr>))"

lemma await_send_result: "fst (await_send others m client payload s) = fst m"
  by (simp add: await_send_def Let_def)

lemma await_send_calm:
  "await_send others (True, []) client payload s
     = (True, s\<lparr>wire := wire s @ [Sent client payload]\<rparr>)"
  by (simp add: await_send_def)

text \<open>
  The three broadcast loops of the servers have one shape,

  \<^verbatim>\<open>for client in connected_clients:
      if client != websocket:            # chat server only
          try:
              await client.send(<payload>)
          except:
              connected_clients.remove(client)\<close>

  A Python \<open>for\<close> over a list keeps an index into the live list: each round it stops
  when the index has reached the current length, and otherwise reads the element at the
  index and moves the index on by one. \<open>broadcast_loop\<close> is that loop from index
  \<open>i\<close>; \<open>wanted\<close> is the chat server's test (always true in the counter server),
  \<open>payload\<close> the f-string, evaluated each round, and \<open>sched\<close> the moments of the
  awaits still to come. An error of \<open>remove\<close> is raised inside the \<open>except\<close> block
  and leaves the loop.
\<close>

function broadcast_loop ::
  "('c action \<Rightarrow> ('c, 'm) server_scheme \<Rightarrow> ('c, 'm) server_scheme) \<Rightarrow> ('c \<Rightarrow> bool) \<Rightarrow>
     (('c, 'm) server_scheme \<Rightarrow> string) \<Rightarrow> 'c moment list \<Rightarrow> nat \<Rightarrow>
     ('c, 'm) server_scheme \<Rightarrow> error option \<times> ('c, 'm) server_scheme" where
  "broadcast_loop others wanted payload sched i s =
     (if i < length (connected_clients s) then
        (let client = connected_clients s ! i in
         if wanted client then
           (case await_send others (next_moment sched) client (payload s) s of (ok, s1) \<Rightarrow>
              if ok then broadcast_loop others wanted payload (tl sched) (i + 1) s1
              else (case list_remove client (connected_clients s1) of
                      Inl e \<Rightarrow> (Some e, s1)
                    | Inr cs \<Rightarrow>
                        broadcast_loop others wanted payload (tl sched) (i + 1)
                          (s1\<lparr>connected_clients := cs\<rparr>)))
         else broadcast_loop others wanted payload sched (i + 1) s)
      else (None, s))"
  by pat_completeness auto

termination
proof (relation "measures [\<lambda>(others, wanted, payload, sched, i, s). length sched,
      \<lambda>(others, wanted, payload, sched, i, s). length (connected_clients s) - i]")
  show "wf (measures [\<lambda>(others, wanted, payload, sched, i, s). length sched,
      \<lambda>(others :: 'c action \<Rightarrow> ('c, 'm) server_scheme \<Rightarrow> ('c, 'm) server_scheme,
         wanted :: 'c \<Rightarrow> bool, payload :: ('c, 'm) server_scheme \<Rightarrow> string,
         sched :: 'c moment list, i, s). length (connected_clients s) - i])"
    by simp
next
  fix others :: "'c action \<Rightarrow> ('c, 'm) server_scheme \<Rightarrow> ('c, 'm) server_scheme"
    and payload :: "('c, 'm) server_scheme \<Rightarrow> string" and sched :: "'c moment list"
    and i :: nat and s y :: "('c, 'm) server_scheme" and x :: 'c and xa :: bool
  assume i: "i < length (connected_clients s)"
    and a: "(xa, y) = await_send others (next_moment sched) x (payload s) s"
  show "((others, wanted, payload, tl sched, i + 1, y), others, wanted, payload, sched, i, s)
      \<in> measures [\<lambda>(others, wanted, payload, sched, i, s). length sched,
          \<lambda>(others, wanted, payload, sched, i, s). length (connected_clients s) - i]"
    for wanted
  proof (cases sched)
    case Nil
    then have "y = s\<lparr>wire := wire s @ [Sent x (payload s)]\<rparr>"
      using a by (simp add: next_moment_def await_send_calm)
    then show ?thesis using Nil i by simp
  next
    case (Cons m later)
    then show ?thesis by simp
  qed
next
  fix others :: "'c action \<Rightarrow> ('c, 'm) server_scheme \<Rightarrow> ('c, 'm) server_scheme"
    and payload :: "('c, 'm) server_scheme \<Rightarrow> string" and sched :: "'c moment list"
    and i :: nat and s y :: "('c, 'm) server_scheme" and x :: 'c and xa :: bool
    and b :: "'c list"
  assume a: "(xa, y) = await_send others (next_moment sched) x (payload s) s"
    and f: "\<not> xa"
  show "((others, wanted, payload, tl sched, i + 1, y\<lparr>connected_clients := b\<rparr>),
        others, wanted, payload, sched, i, s)
      \<in> measures [\<lambda>(others, wanted, payload, sched, i, s). length sched,
          \<lambda>(others, wanted, payload, sched, i, s). length (connected_clients s) - i]"
    for wanted
  proof (cases sched)
    case Nil
    then have "xa"
      using a by (simp add: next_moment_def await_send_calm)
    then show ?thesis using f by simp
  next
    case (Cons m later)
    then show ?thesis by simp
  qed
next
  fix others :: "'c action \<Rightarrow> ('c, 'm) server_scheme \<Rightarrow> ('c, 'm) server_scheme"
    and payload :: "('c, 'm) server_scheme \<Rightarrow> string" and sched :: "'c moment list"
    and i :: nat and s :: "('c, 'm) server_scheme"
  assume "i < length (connected_clients s)"
  then show "((others, wanted, payload, sched, i + 1, s), others, wanted, payload, sched, i, s)
      \<in> measures [\<lambda>(others, wanted, payload, sched, i, s). length sched,
          \<lambda>(others, wanted, payload, sched, i, s). length (connected_clients s) - i]"
    for wanted
    by simp
qed

declare broadcast_loop.simps [simp del]

section \<open>The chat server (\<open>03_chat_server.py\<close>)\<close>

text \<open>
  \<open>chat_handler_open\<close> is the handler up to its welcome message,
  \<open>chat_handler_message\<close> the body of \<open>async for message in websocket\<close> for one
  inbound message, \<open>chat_messages\<close> that loop over the messages the connection
  delivers before it closes (each with the moments of its broadcast), and
  \<open>chat_handler\<close> the whole coroutine: the result is the exception that leaves it, if
  any. A failed welcome raises ConnectionClosed inside the \<open>try\<close>, which the
  \<open>except\<close> clause catches; the \<open>finally\<close> block runs in every case.
\<close>

definition chat_handler_open ::
  "'c moment \<Rightarrow> 'c \<Rightarrow> 'c server \<Rightarrow> nat \<times> bool \<times> 'c server" where
  "chat_handler_open m websocket s =
     (case register websocket s of (client_id, s1) \<Rightarrow>
        (client_id,
         await_send registry_effect m websocket
           (''Welcome! You are client '' @ str_nat client_id) s1))"

definition chat_handler_message ::
  "'c moment list \<Rightarrow> 'c \<Rightarrow> nat \<Rightarrow> string \<Rightarrow> 'c server \<Rightarrow> error option \<times> 'c server" where
  "chat_handler_message sched websocket client_id message s =
     broadcast_loop registry_effect (\<lambda>client. client \<noteq> websocket)
       (\<lambda>t. ''Client '' @ str_nat client_id @ '': '' @ message) sched 0 s"

fun chat_messages ::
  "'c \<Rightarrow> nat \<Rightarrow> ('c moment list \<times> string) list \<Rightarrow> 'c server \<Rightarrow> error option \<times> 'c server" where
  "chat_messages websocket client_id [] s = (None, s)"
| "chat_messages websocket client_id ((sched, message) # rest) s =
     (case chat_handler_message sched websocket client_id message s of
        (Some e, s1) \<Rightarrow> (Some e, s1)
      | (None, s1) \<Rightarrow> chat_messages websocket client_id rest s1)"

definition chat_handler ::
  "'c moment \<Rightarrow> 'c \<Rightarrow> ('c moment list \<times> string) list \<Rightarrow> 'c server \<Rightarrow>
     error option \<times> 'c server" where
  "chat_handler m websocket messages s =
     (case chat_handler_open m websocket s of (client_id, ok, s1) \<Rightarrow>
        (case (if ok then chat_messages websocket client_id messages s1
               else (Some ConnectionClosed, s1)) of (raised, s2) \<Rightarrow>
           (case handler_finally websocket s2 of
              (Some e, s3) \<Rightarrow> (Some e, s3)
            | (None, s3) \<Rightarrow> (if raised = Some ConnectionClosed then None else raised, s3))))"

section \<open>The counter server (\<open>05_counter_server.py\<close>)\<close>

text \<open>
  The same parts for \<open>counter_handler\<close>. Its first send stands before the \<open>try\<close>:
  when it raises, the exception leaves the handler and no \<open>finally\<close> block runs.
  \<open>client_id\<close> is only printed, so the message handler does not take it.
\<close>

definition counter_handler_open ::
  "'c moment \<Rightarrow> 'c \<Rightarrow> 'c counter_server \<Rightarrow> bool \<times> 'c counter_server" where
  "counter_handler_open m websocket s =
     (case register websocket s of (client_id, s1) \<Rightarrow>
        await_send counter_effect m websocket (''Current counter: '' @ str_int (counter s1)) s1)"

definition counter_handler_message ::
  "'c moment list \<Rightarrow> 'c \<Rightarrow> string \<Rightarrow> 'c counter_server \<Rightarrow>
     error option \<times> 'c counter_server" where
  "counter_handler_message sched websocket message s =
     (if lower message = ''increment'' then
        broadcast_loop counter_effect (\<lambda>client. True)
          (\<lambda>t. ''Counter: '' @ str_int (counter t)) sched 0 (s\<lparr>counter := counter s + 1\<rparr>)
      else if lower message = ''reset'' then
        broadcast_loop counter_effect (\<lambda>client. True)
          (\<lambda>t. ''Counter reset to 0'') sched 0 (s\<lparr>counter := 0\<rparr>)
      else (None, s))"

fun counter_messages ::
  "'c \<Rightarrow> ('c moment list \<times> string) list \<Rightarrow> 'c counter_server \<Rightarrow>
     error option \<times> 'c counter_server" where
  "counter_messages websocket [] s = (None, s)"
| "counter_messages websocket ((sched, message) # rest) s =
     (case counter_handler_message sched websocket message s of
        (Some e, s1) \<Rightarrow> (Some e, s1)
      | (None, s1) \<Rightarrow> counter_messages websocket rest s1)"

definition counter_handler ::
  "'c moment \<Rightarrow> 'c \<Rightarrow> ('c moment list \<times> string) list \<Rightarrow> 'c counter_server \<Rightarrow>
     error option \<times> 'c counter_server" where
  "counter_handler m websocket messages s =
     (case counter_handler_open m websocket s of
        (False, s1) \<Rightarrow> (Some ConnectionClosed, s1)
      | (True, s1) \<Rightarrow>
          (case counter_messages websocket messages s1 of (raised, s2) \<Rightarrow>
             (case handler_finally websocket s2 of
                (Some e, s3) \<Rightarrow> (Some e, s3)
              | (None, s3) \<Rightarrow> (if raised = Some ConnectionClosed then None else raised, s3))))"




section \<open>Registrations over the life of a process\<close>

text \<open>
  A server process registers a connection when its handler starts and deregisters it in
  the handler's \<open>finally\<close> block. \<open>run_registry_ops\<close> performs a sequence of these
  operations and returns the \<open>client_id\<close> of every registration, in order.
\<close>

datatype 'c registry_op = Register 'c | Deregister 'c

fun registrations :: "'c registry_op list \<Rightarrow> 'c list" where
  "registrations [] = []"
| "registrations (Register websocket # ops) = websocket # registrations ops"
| "registrations (Deregister websocket # ops) = registrations ops"

fun only_registers :: "'c registry_op list \<Rightarrow> bool" where
  "only_registers [] = True"
| "only_registers (Register websocket # ops) = only_registers ops"
| "only_registers (Deregister websocket # ops) = False"

fun run_registry_ops ::
  "'c registry_op list \<Rightarrow> ('c, 'm) server_scheme \<Rightarrow> nat list \<times> ('c, 'm) server_scheme" where
  "run_registry_ops [] s = ([], s)"
| "run_registry_ops (Register websocket # ops) s =
     (case register websocket s of (client_id, s1) \<Rightarrow>
        (case run_registry_ops ops s1 of (ids, s2) \<Rightarrow> (client_id # ids, s2)))"
| "run_registry_ops (Deregister websocket # ops) s =
     run_registry_ops ops (snd (handler_finally websocket s))"

section \<open>The send loops of the clients\<close>

text \<open>
  \<open>send_messages\<close> of \<open>04_chat_client.py\<close> and \<open>send_commands\<close> of
  \<open>06_counter_client.py\<close>:

  \<^verbatim>\<open>try:
      while True:
          message = await aioconsole.ainput(...)
          if message.lower() in ['quit', 'exit', 'bye']:    # ['quit', 'exit'] in the counter client
              break
          await websocket.send(message)
  except:
      pass\<close>

  The loop reads the lines the user types; \<open>ainput\<close> raises at the end of the input.
  \<open>sendable\<close> is the number of frames the connection still takes before \<open>send\<close>
  raises. The result is the list of frames transmitted and the way the loop ended: by
  \<open>break\<close>, or by an exception that the bare \<open>except\<close> swallows.
\<close>

datatype loop_exit = Break | Raised

fun send_messages :: "nat \<Rightarrow> string list \<Rightarrow> string list \<times> loop_exit" where
  "send_messages sendable [] = ([], Raised)"
| "send_messages sendable (message # rest) =
     (if lower message \<in> set [''quit'', ''exit'', ''bye''] then ([], Break)
      else (case sendable of
              0 \<Rightarrow> ([], Raised)
            | Suc k \<Rightarrow> (case send_messages k rest of (out, e) \<Rightarrow> (message # out, e))))"

fun send_commands :: "nat \<Rightarrow> string list \<Rightarrow> string list \<times> loop_exit" where
  "send_commands sendable [] = ([], Raised)"
| "send_commands sendable (command # rest) =
     (if lower command \<in> set [''quit'', ''exit''] then ([], Break)
      else (case sendable of
              0 \<Rightarrow> ([], Raised)
            | Suc k \<Rightarrow> (case send_commands k rest of (out, e) \<Rightarrow> (command # out, e))))"

section \<open>Letter case\<close>

text \<open>
  Comparing \<open>lower message\<close> with a word of lower-case ASCII letters accepts exactly
  the spellings of that word in any letter case.
\<close>

lemma char_of_nat_eq: "(char_of (m::nat) = w) = (m mod 256 = of_char w)"
  by (simp add: char_of_eq_iff take_bit_eq_mod)

lemma lower_char_letter:
  assumes "ascii_lowercase w"
  shows "(lower_char c = w) = (c = w \<or> c = upper_ascii w)"
proof -
  define n k :: nat where "n = of_char c" and "k = of_char w"
  have b: "n < 256" "97 \<le> k" "k \<le> 122"
    using assms by (simp_all add: n_def k_def ascii_lowercase_def)
  have e: "(c = w) = (n = k)"
    by (simp add: n_def k_def)
  have u: "(c = upper_ascii w) = (n = (k - 32) mod 256)"
  proof -
    have "(c = upper_ascii w) = (char_of (k - 32) = c)"
      using assms by (auto simp add: upper_ascii_def k_def)
    also have "\<dots> = ((k - 32) mod 256 = n)"
      unfolding n_def by (rule char_of_nat_eq)
    finally show ?thesis by auto
  qed
  have l: "(lower_char c = w) =
      (if (65 \<le> n \<and> n \<le> 90) \<or> (192 \<le> n \<and> n \<le> 222 \<and> n \<noteq> 215)
       then (n + 32) mod 256 = k else n = k)"
    by (simp add: lower_char_def Let_def char_of_nat_eq e flip: n_def k_def)
  show ?thesis
    unfolding l e u using b by (simp split: if_splits) arith
qed

lemma lower_eq_word:
  "list_all ascii_lowercase word \<Longrightarrow> (lower s = word) = spec_any_letter_case word s"
proof (induction word arbitrary: s)
  case Nil
  show ?case by (simp add: lower_def spec_any_letter_case_def)
next
  case (Cons w word)
  show ?case
  proof (cases s)
    case Nil
    then show ?thesis by (simp add: lower_def spec_any_letter_case_def)
  next
    case (Cons c cs)
    have "(lower cs = word) = spec_any_letter_case word cs"
      using Cons.prems by (intro Cons.IH) simp
    moreover have "(lower_char c = w) = (c = w \<or> c = upper_ascii w)"
      using Cons.prems by (intro lower_char_letter) simp
    ultimately show ?thesis
      using Cons by (simp add: lower_def spec_any_letter_case_def)
  qed
qed

lemma lower_increment: "(lower m = ''increment'') = spec_any_letter_case ''increment'' m"
  by (rule lower_eq_word) (simp add: ascii_lowercase_def)

lemma lower_reset: "(lower m = ''reset'') = spec_any_letter_case ''reset'' m"
  by (rule lower_eq_word) (simp add: ascii_lowercase_def)

lemma lower_quit: "(lower m = ''quit'') = spec_any_letter_case ''quit'' m"
  by (rule lower_eq_word) (simp add: ascii_lowercase_def)

lemma lower_exit: "(lower m = ''exit'') = spec_any_letter_case ''exit'' m"
  by (rule lower_eq_word) (simp add: ascii_lowercase_def)

lemma lower_bye: "(lower m = ''bye'') = spec_any_letter_case ''bye'' m"
  by (rule lower_eq_word) (simp add: ascii_lowercase_def)

section \<open>Facts about awaits and the broadcast loop\<close>

text \<open>
  No action of another handler writes to the wire, and the two counter actions leave the
  registry alone. Whatever happens at its awaits, a broadcast only appends frames to the
  wire. Under moments in which every send returns and no other handler registers or
  deregisters a connection, it raises nothing, leaves the registry as it was and sends to
  the wanted clients in list order.
\<close>

lemma handler_finally_wire: "wire (snd (handler_finally w s)) = wire s"
  by (simp add: handler_finally_def list_remove_def)

lemma handler_finally_clients:
  "connected_clients (snd (handler_finally w s))
     = (if w \<in> set (connected_clients s) then remove1 w (connected_clients s)
        else connected_clients s)"
  by (simp add: handler_finally_def list_remove_def)

lemma registry_effect_wire: "wire (registry_effect a s) = wire s"
  by (cases a) (simp_all add: register_def handler_finally_wire)

lemma counter_effect_wire: "wire (counter_effect a s) = wire s"
  by (cases a) (simp_all add: register_def handler_finally_wire)

lemma registry_effect_keeps:
  "keeps_registry a \<Longrightarrow> connected_clients (registry_effect a s) = connected_clients s"
  by (cases a) simp_all

lemma counter_effect_keeps:
  "keeps_registry a \<Longrightarrow> connected_clients (counter_effect a s) = connected_clients s"
  by (cases a) simp_all

lemma others_wire:
  assumes "\<And>a t. wire (others a t) = wire t"
  shows "wire (foldl (\<lambda>t a. others a t) s acts) = wire s"
  by (induction acts arbitrary: s) (simp_all add: assms)

lemma others_keep:
  assumes "\<And>a t. keeps_registry a \<Longrightarrow> connected_clients (others a t) = connected_clients t"
    and "list_all keeps_registry acts"
  shows "connected_clients (foldl (\<lambda>t a. others a t) s acts) = connected_clients s"
  using assms(2) by (induction acts arbitrary: s) (simp_all add: assms(1))

lemma await_send_wire:
  assumes "\<And>a t. wire (others a t) = wire t"
  shows "wire (snd (await_send others m client p s))
     = wire s @ [if fst m then Sent client p else Failed client p]"
  using others_wire [of others s "snd m", OF assms]
  by (simp add: await_send_def Let_def)

lemma await_send_keeps:
  assumes "\<And>a t. keeps_registry a \<Longrightarrow> connected_clients (others a t) = connected_clients t"
    and "list_all keeps_registry (snd m)"
  shows "connected_clients (snd (await_send others m client p s)) = connected_clients s"
  using others_keep [of others "snd m" s, OF assms]
  by (simp add: await_send_def Let_def)


lemma steady_tl: "steady sched \<Longrightarrow> steady (tl sched)"
  by (cases sched) (simp_all add: steady_def)

lemma steady_next:
  "steady sched \<Longrightarrow> fst (next_moment sched) \<and> list_all keeps_registry (snd (next_moment sched))"
  by (cases sched) (simp_all add: steady_def next_moment_def)

lemma broadcast_loop_steady:
  assumes "\<And>a t. wire (others a t) = wire t"
    and "\<And>a t. keeps_registry a \<Longrightarrow> connected_clients (others a t) = connected_clients t"
    and "steady sched"
  shows "\<exists>fs. fst (broadcast_loop others wanted payload sched i s) = None
      \<and> connected_clients (snd (broadcast_loop others wanted payload sched i s))
          = connected_clients s
      \<and> wire (snd (broadcast_loop others wanted payload sched i s)) = wire s @ fs
      \<and> map target fs = filter wanted (drop i (connected_clients s))"
  using assms
proof (induction others wanted payload sched i s rule: broadcast_loop.induct)
  case (1 others wanted payload sched i s)
  note w = "1.prems"(1) and k = "1.prems"(2) and st = "1.prems"(3)
  show ?case
  proof (cases "i < length (connected_clients s)")
    case False
    then have "broadcast_loop others wanted payload sched i s = (None, s)"
      by (simp add: broadcast_loop.simps [of others wanted payload sched i s])
    then have "fst (broadcast_loop others wanted payload sched i s) = None
      \<and> connected_clients (snd (broadcast_loop others wanted payload sched i s))
          = connected_clients s
      \<and> wire (snd (broadcast_loop others wanted payload sched i s)) = wire s @ []
      \<and> map target [] = filter wanted (drop i (connected_clients s))"
      using False by simp
    then show ?thesis ..
  next
    case i: True
    let ?c = "connected_clients s ! i"
    have d: "drop i (connected_clients s) = ?c # drop (Suc i) (connected_clients s)"
      using i by (simp add: Cons_nth_drop_Suc)
    show ?thesis
    proof (cases "wanted ?c")
      case False
      have e: "broadcast_loop others wanted payload sched i s
          = broadcast_loop others wanted payload sched (i + 1) s"
        using i False by (simp add: broadcast_loop.simps [of others wanted payload sched i s])
      obtain fs where "fst (broadcast_loop others wanted payload sched (i + 1) s) = None"
        and "connected_clients (snd (broadcast_loop others wanted payload sched (i + 1) s))
             = connected_clients s"
        and "wire (snd (broadcast_loop others wanted payload sched (i + 1) s)) = wire s @ fs"
        and "map target fs = filter wanted (drop (i + 1) (connected_clients s))"
        using "1.IH"(3) [OF i refl False w k st] by blast
      then have "fst (broadcast_loop others wanted payload sched i s) = None
        \<and> connected_clients (snd (broadcast_loop others wanted payload sched i s))
            = connected_clients s
        \<and> wire (snd (broadcast_loop others wanted payload sched i s)) = wire s @ fs
        \<and> map target fs = filter wanted (drop i (connected_clients s))"
        using e d False by simp
      then show ?thesis ..
    next
      case wanted: True
      obtain ok s1 where a: "await_send others (next_moment sched) ?c (payload s) s = (ok, s1)"
        by (cases "await_send others (next_moment sched) ?c (payload s) s")
      have n: "fst (next_moment sched)" "list_all keeps_registry (snd (next_moment sched))"
        using steady_next [OF st] by simp_all
      have ok: ok
        using await_send_result [of others "next_moment sched" ?c "payload s" s] a n(1) by simp
      have w1: "wire s1 = wire s @ [Sent ?c (payload s)]"
        using await_send_wire [of others "next_moment sched" ?c "payload s" s, OF w] a n(1)
        by simp
      have c1: "connected_clients s1 = connected_clients s"
        using await_send_keeps [of others "next_moment sched" ?c "payload s" s, OF k n(2)] a
        by simp
      have e: "broadcast_loop others wanted payload sched i s
            = broadcast_loop others wanted payload (tl sched) (i + 1) s1"
        using i wanted a ok
        by (simp add: broadcast_loop.simps [of others wanted payload sched i s])
      obtain fs where "fst (broadcast_loop others wanted payload (tl sched) (i + 1) s1) = None"
        and "connected_clients (snd (broadcast_loop others wanted payload (tl sched) (i + 1) s1))
             = connected_clients s1"
        and "wire (snd (broadcast_loop others wanted payload (tl sched) (i + 1) s1))
             = wire s1 @ fs"
        and "map target fs = filter wanted (drop (i + 1) (connected_clients s1))"
        using "1.IH"(1) [OF i refl wanted a [symmetric] ok w k steady_tl [OF st]] by blast
      then have "fst (broadcast_loop others wanted payload sched i s) = None
        \<and> connected_clients (snd (broadcast_loop others wanted payload sched i s))
            = connected_clients s
        \<and> wire (snd (broadcast_loop others wanted payload sched i s))
            = wire s @ (Sent ?c (payload s) # fs)
        \<and> map target (Sent ?c (payload s) # fs) = filter wanted (drop i (connected_clients s))"
        using e d wanted w1 c1 by simp
      then show ?thesis ..
    qed
  qed
qed

section \<open>Partial failure of a broadcast\<close>

text \<open>
  C1. The claim: when the send to one target of a chat or counter broadcast fails, that
  target is deregistered, no exception leaves the broadcast, and every other target that
  does not fail still receives the message before the broadcast is complete.

  The code does not do this. The \<open>except\<close> block removes the failing target from the
  list the \<open>for\<close> statement is iterating, so the element after it moves into the index
  just visited and the loop never reaches it. The theorem runs both servers with three
  (four) registered connections of which only the first send, to connection 1, fails:
  connection 1 is deregistered and no exception is raised, but connection 2, registered
  and healthy, is sent nothing.
\<close>

theorem broadcast_skips_the_target_after_a_failed_send:
  "counter_handler_message [(False, [])] (3::nat) ''increment''
       \<lparr>connected_clients = [1, 2, 3], wire = [], counter = 0\<rparr>
     = (None, \<lparr>connected_clients = [2, 3],
               wire = [Failed 1 ''Counter: 1'', Sent 3 ''Counter: 1''], counter = 1\<rparr>)
   \<and> chat_handler_message [(False, [])] (4::nat) 4 ''hi''
       \<lparr>connected_clients = [1, 2, 3, 4], wire = []\<rparr>
     = (None, \<lparr>connected_clients = [2, 3, 4],
               wire = [Failed 1 ''Client 4: hi'', Sent 3 ''Client 4: hi'']\<rparr>)"
  by code_simp

text \<open>
  C2. The claim: for every registry state and counter value, when the counter server
  receives "increment" in any letter case from a connection, it increments the counter by
  exactly 1 and sends "Counter: <new value>" to every registered connection, the sender
  included.

  The code does not do this when a registered connection is dead. With connections 1, 2
  and 3 registered, the counter at 6 and the send to 2 raising, "INCREMENT" from
  connection 1 sets the counter to 7 and removes 2 from the list being iterated, and
  connection 3 is never sent "Counter: 7" (first conjunct; the defect of C1). The text is
  also formatted anew each round from the global counter: when another handler increments
  the counter while the first send is suspended, the two registered connections are sent
  different values (second conjunct).
\<close>

theorem increment_misses_a_registered_connection:
  "counter_handler_message [(True, []), (False, [])] (1::nat) ''INCREMENT''
       \<lparr>connected_clients = [1, 2, 3], wire = [], counter = 6\<rparr>
     = (None, \<lparr>connected_clients = [1, 3],
               wire = [Sent 1 ''Counter: 7'', Failed 2 ''Counter: 7''], counter = 7\<rparr>)
   \<and> counter_handler_message [(True, [Increments])] (1::nat) ''increment''
       \<lparr>connected_clients = [1, 2], wire = [], counter = 0\<rparr>
     = (None, \<lparr>connected_clients = [1, 2],
               wire = [Sent 1 ''Counter: 1'', Sent 2 ''Counter: 2''], counter = 2\<rparr>)"
  by code_simp

text \<open>
  C3. The claim: in the chat server, for every number N of connections from 2 on, a
  message of connection A is delivered to each of the other N - 1 registered connections
  as "Client <id>: <text>", and never to A.

  The code never sends the message to A, but it does not reach all the others when one of
  them is dead. With connections 1 to 5 registered, connection 1 sending "hello" and the
  send to 3 raising, connections 2 and 5 are sent "Client 1: hello" and connection 4,
  registered and healthy, is sent nothing (the defect of C1).
\<close>

theorem chat_message_misses_a_registered_connection:
  "chat_handler_message [(True, []), (False, [])] (1::nat) 1 ''hello''
       \<lparr>connected_clients = [1, 2, 3, 4, 5], wire = []\<rparr>
     = (None, \<lparr>connected_clients = [1, 2, 4, 5],
               wire = [Sent 2 ''Client 1: hello'', Failed 3 ''Client 1: hello'',
                       Sent 5 ''Client 1: hello'']\<rparr>)"
  by code_simp

text \<open>
  C4. The claim: for every prior counter value, when the counter server receives "reset"
  in any letter case, the counter becomes exactly 0 and "Counter reset to 0" is sent to
  every registered connection.

  The counter becomes 0, but the notice does not reach every registered connection when
  one of them is dead. With connections 1, 2 and 3 registered and the send to 2 raising,
  "Reset" from connection 1 removes 2 from the list being iterated, and connection 3 is
  never sent the notice (the defect of C1).
\<close>

theorem reset_misses_a_registered_connection:
  "counter_handler_message [(True, []), (False, [])] (1::nat) ''Reset''
       \<lparr>connected_clients = [1, 2, 3], wire = [], counter = 6\<rparr>
     = (None, \<lparr>connected_clients = [1, 3],
               wire = [Sent 1 ''Counter reset to 0'', Failed 2 ''Counter reset to 0''],
               counter = 0\<rparr>)"
  by code_simp

section \<open>Deregistering a connection that is not registered\<close>

text \<open>
  C5. The claim: deregistering a connection that is not in the registry is a no-op and
  raises nothing, on the cleanup path at the end of a session and on the send-failure
  path inside a broadcast.

  The cleanup path tests membership first and is a no-op (first conjunct). The
  send-failure path calls \<open>connected_clients.remove(client)\<close> with no test. When the
  target's own handler ends while the broadcast is suspended in the send to it, the target
  is gone from the list by the time the \<open>except\<close> block runs, and \<open>remove\<close>
  raises ValueError, which leaves the message handler of both servers (second and third
  conjunct). \<open>except websockets.exceptions.ConnectionClosed\<close> does not catch it: after
  the \<open>finally\<close> block it leaves the whole handler, and the sender's session ends with
  its second message unread (fourth conjunct).
\<close>

theorem send_failure_path_raises_on_absent_connection:
  "handler_finally (2::nat) \<lparr>connected_clients = [1], wire = []\<rparr>
     = (None, \<lparr>connected_clients = [1], wire = []\<rparr>)
   \<and> chat_handler_message [(False, [Leaves 2])] (1::nat) 1 ''hi''
       \<lparr>connected_clients = [1, 2], wire = []\<rparr>
     = (Some ValueError, \<lparr>connected_clients = [1], wire = [Failed 2 ''Client 1: hi'']\<rparr>)
   \<and> counter_handler_message [(True, []), (False, [Leaves 2])] (1::nat) ''reset''
       \<lparr>connected_clients = [1, 2], wire = [], counter = 5\<rparr>
     = (Some ValueError,
        \<lparr>connected_clients = [1],
           wire = [Sent 1 ''Counter reset to 0'', Failed 2 ''Counter reset to 0''],
           counter = 0\<rparr>)
   \<and> chat_handler (True, []) (1::nat) [([(False, [Leaves 2])], ''hi''), ([], ''there'')]
       \<lparr>connected_clients = [2], wire = []\<rparr>
     = (Some ValueError,
        \<lparr>connected_clients = [],
           wire = [Sent 1 ''Welcome! You are client 2'', Failed 2 ''Client 2: hi'']\<rparr>)"
  by code_simp

section \<open>Unrecognised commands of the counter server\<close>

text \<open>
  C10. When the counter server receives a message that is neither "increment" nor
  "reset" in any letter case, the message handler raises nothing and changes nothing:
  the counter, the registered connections and the wire are as before (no frame is sent
  to anyone), and the session's read loop goes on with the next message.
\<close>

theorem unknown_command_is_ignored:
  assumes "\<not> spec_any_letter_case ''increment'' message"
    and "\<not> spec_any_letter_case ''reset'' message"
  shows "counter_handler_message sched websocket message s = (None, s)
    \<and> counter_messages websocket ((sched, message) # rest) s
        = counter_messages websocket rest s"
  using assms by (simp add: counter_handler_message_def lower_increment lower_reset)

theorem unknown_command_is_ignored_witness:
  "\<not> spec_any_letter_case ''increment'' ''hello''
   \<and> \<not> spec_any_letter_case ''reset'' ''hello''
   \<and> counter_handler_message [(False, [Connects 3, Increments])] (1::nat) ''hello''
        \<lparr>connected_clients = [1, 2], wire = [], counter = 4\<rparr>
      = (None, \<lparr>connected_clients = [1, 2], wire = [], counter = 4\<rparr>)
   \<and> counter_messages (1::nat) [([(False, [Connects 3, Increments])], ''hello''), ([], ''reset'')]
        \<lparr>connected_clients = [1, 2], wire = [], counter = 4\<rparr>
      = counter_messages 1 [([], ''reset'')]
        \<lparr>connected_clients = [1, 2], wire = [], counter = 4\<rparr>"
proof -
  have a: "\<not> spec_any_letter_case ''increment'' ''hello''" by code_simp
  have b: "\<not> spec_any_letter_case ''reset'' ''hello''" by code_simp
  note t = unknown_command_is_ignored [OF a b,
      of "[(False, [Connects 3, Increments])]" "1::nat"
         "\<lparr>connected_clients = [1, 2], wire = [], counter = 4\<rparr>" "[([], ''reset'')]"]
  show ?thesis
    by (intro conjI a b conjunct1 [OF t] conjunct2 [OF t])
qed

section \<open>The targets a broadcast visits\<close>

text \<open>
  C6 as the specification states it: every broadcast iterates over a snapshot of the
  registry taken when it begins, so the sequence of targets it visits is unaffected by a
  deregistration performed while it is in progress.

  The servers take no snapshot: each loop is \<open>for client in connected_clients\<close> over
  the module-level list, and every change of that list is seen by the loop. With
  connections 1, 2, 3 registered and the send to 1 failing, a reset broadcast visits 1
  and 3, not 1, 2 and 3. With connections 1 to 4 registered, a chat message of 4, no
  failing send, and the handler of 1 ending during the send to 2, the broadcast visits 1
  and 2 only. With connections 1 and 2 registered, a chat message of 1, and connection 3
  registering during the send to 2, the broadcast visits 2 and then 3.
\<close>

theorem broadcast_follows_the_live_list:
  "map target (wire (snd (counter_handler_message [(False, [])] (3::nat) ''reset''
       \<lparr>connected_clients = [1, 2, 3], wire = [], counter = 9\<rparr>))) = [1, 3]
   \<and> map target (wire (snd (counter_handler_message [(False, [])] (3::nat) ''reset''
       \<lparr>connected_clients = [1, 2, 3], wire = [], counter = 9\<rparr>))) \<noteq> [1, 2, 3]
   \<and> map target (wire (snd (chat_handler_message [(True, []), (True, [Leaves 1])]
       (4::nat) 4 ''hi'' \<lparr>connected_clients = [1, 2, 3, 4], wire = []\<rparr>))) = [1, 2]
   \<and> map target (wire (snd (chat_handler_message [(True, [Connects 3])]
       (1::nat) 1 ''hi'' \<lparr>connected_clients = [1, 2], wire = []\<rparr>))) = [2, 3]"
  by code_simp

text \<open>
  C6, amended. A broadcast iterates over the live list \<open>connected_clients\<close> by
  position. When the registry does not change while it is in progress (no send fails and
  no other handler registers or deregisters a connection, whatever happens to the
  counter), the broadcast raises nothing, leaves the registry as it was, and the sequence
  of targets it visits is the registry's membership at its start, in order (without the
  sender in the chat server).
\<close>

theorem undisturbed_broadcast_visits_the_registry_in_order:
  assumes "steady sched"
  shows "(\<exists>fs. fst (broadcast_loop registry_effect wanted payload sched 0 s) = None
      \<and> connected_clients (snd (broadcast_loop registry_effect wanted payload sched 0 s))
          = connected_clients s
      \<and> wire (snd (broadcast_loop registry_effect wanted payload sched 0 s)) = wire s @ fs
      \<and> map target fs = filter wanted (connected_clients s))
    \<and> (\<exists>fs. fst (broadcast_loop counter_effect wanted' payload' sched 0 t) = None
      \<and> connected_clients (snd (broadcast_loop counter_effect wanted' payload' sched 0 t))
          = connected_clients t
      \<and> wire (snd (broadcast_loop counter_effect wanted' payload' sched 0 t)) = wire t @ fs
      \<and> map target fs = filter wanted' (connected_clients t))"
  using broadcast_loop_steady [of registry_effect sched wanted payload 0 s,
      OF registry_effect_wire registry_effect_keeps assms]
    broadcast_loop_steady [of counter_effect sched wanted' payload' 0 t,
      OF counter_effect_wire counter_effect_keeps assms]
  by simp

theorem undisturbed_broadcast_visits_the_registry_in_order_witness:
  "steady ([(True, [Increments]), (True, [Resets, Increments])] :: nat moment list)
   \<and> (\<exists>fs. fst (broadcast_loop registry_effect (\<lambda>client. client \<noteq> 2) (\<lambda>t. ''Client 2: hi'')
               [(True, [Increments]), (True, [Resets, Increments])] 0
               \<lparr>connected_clients = [1::nat, 2, 3], wire = []\<rparr>) = None
      \<and> wire (snd (broadcast_loop registry_effect (\<lambda>client. client \<noteq> 2) (\<lambda>t. ''Client 2: hi'')
               [(True, [Increments]), (True, [Resets, Increments])] 0
               \<lparr>connected_clients = [1::nat, 2, 3], wire = []\<rparr>)) = fs
      \<and> map target fs = [1, 3])
   \<and> (\<exists>fs. fst (broadcast_loop counter_effect (\<lambda>client. True)
               (\<lambda>t. ''Counter: '' @ str_int (counter t))
               [(True, [Increments]), (True, [Resets, Increments])] 0
               \<lparr>connected_clients = [1::nat, 2, 3], wire = [], counter = 1\<rparr>) = None
      \<and> wire (snd (broadcast_loop counter_effect (\<lambda>client. True)
               (\<lambda>t. ''Counter: '' @ str_int (counter t))
               [(True, [Increments]), (True, [Resets, Increments])] 0
               \<lparr>connected_clients = [1::nat, 2, 3], wire = [], counter = 1\<rparr>)) = fs
      \<and> map target fs = [1, 2, 3])"
proof -
  let ?sched = "[(True, [Increments]), (True, [Resets, Increments])] :: nat moment list"
  have st: "steady ?sched" by (simp add: steady_def)
  note t = undisturbed_broadcast_visits_the_registry_in_order [OF st,
      where wanted = "\<lambda>client. client \<noteq> 2" and payload = "\<lambda>t. ''Client 2: hi''"
        and s = "\<lparr>connected_clients = [1::nat, 2, 3], wire = []\<rparr>"
        and wanted' = "\<lambda>client. True"
        and payload' = "\<lambda>t. ''Counter: '' @ str_int (counter t)"
        and t = "\<lparr>connected_clients = [1::nat, 2, 3], wire = [], counter = 1\<rparr>"]
  show ?thesis using t st by simp
qed

section \<open>The first frame of a new connection of the counter server\<close>







section \<open>The quit words of the clients\<close>

text \<open>
  C8 as the specification states it: in the send loop of the chat client and of the
  counter client, the loop ends voluntarily without transmitting exactly when the input
  is "quit", "exit" or "bye" in any letter case.

  The counter client tests \<open>command.lower() in ['quit', 'exit']\<close>: "bye" is not one
  of its quit words. It transmits "bye" to the server and goes on reading input.
\<close>

theorem counter_client_transmits_bye:
  "spec_any_letter_case ''bye'' ''bye''
   \<and> send_commands 1 [''bye''] = ([''bye''], Raised)
   \<and> send_commands 2 [''Bye'', ''quit''] = ([''Bye''], Break)"
  by code_simp

text \<open>
  C8, amended. For every input line, the send loop of the chat client ends voluntarily
  without transmitting exactly when the line is "quit", "exit" or "bye" in any letter
  case, and the send loop of the counter client exactly when the line is "quit" or "exit"
  in any letter case. Any other line is transmitted (while the connection takes frames)
  and the loop goes on with the rest of the input.
\<close>

theorem send_loops_end_at_their_quit_words:
  "((send_messages sendable (line # rest) = ([], Break))
      = (spec_any_letter_case ''quit'' line \<or> spec_any_letter_case ''exit'' line
         \<or> spec_any_letter_case ''bye'' line))
   \<and> ((send_commands sendable (line # rest) = ([], Break))
      = (spec_any_letter_case ''quit'' line \<or> spec_any_letter_case ''exit'' line))
   \<and> (\<not> (spec_any_letter_case ''quit'' line \<or> spec_any_letter_case ''exit'' line
          \<or> spec_any_letter_case ''bye'' line) \<longrightarrow>
        send_messages (Suc sendable) (line # rest)
          = (line # fst (send_messages sendable rest), snd (send_messages sendable rest)))
   \<and> (\<not> (spec_any_letter_case ''quit'' line \<or> spec_any_letter_case ''exit'' line) \<longrightarrow>
        send_commands (Suc sendable) (line # rest)
          = (line # fst (send_commands sendable rest), snd (send_commands sendable rest)))"
proof -
  have a: "(send_messages sendable (line # rest) = ([], Break))
      = (lower line \<in> set [''quit'', ''exit'', ''bye''])"
    by (cases sendable) (simp_all split: prod.splits)
  have b: "(send_commands sendable (line # rest) = ([], Break))
      = (lower line \<in> set [''quit'', ''exit''])"
    by (cases sendable) (simp_all split: prod.splits)
  have c: "send_messages (Suc sendable) (line # rest)
          = (line # fst (send_messages sendable rest), snd (send_messages sendable rest))"
    if "lower line \<notin> set [''quit'', ''exit'', ''bye'']"
    using that by (simp split: prod.splits)
  have d: "send_commands (Suc sendable) (line # rest)
          = (line # fst (send_commands sendable rest), snd (send_commands sendable rest))"
    if "lower line \<notin> set [''quit'', ''exit'']"
    using that by (simp split: prod.splits)
  have w: "(lower line \<in> set [''quit'', ''exit'', ''bye''])
      = (spec_any_letter_case ''quit'' line \<or> spec_any_letter_case ''exit'' line
         \<or> spec_any_letter_case ''bye'' line)"
    "(lower line \<in> set [''quit'', ''exit''])
      = (spec_any_letter_case ''quit'' line \<or> spec_any_letter_case ''exit'' line)"
    using lower_quit [of line] lower_exit [of line] lower_bye [of line] by auto
  show ?thesis
    using a b c d unfolding w by blast
qed

theorem send_loops_end_at_their_quit_words_witness:
  "\<not> (spec_any_letter_case ''quit'' ''hello'' \<or> spec_any_letter_case ''exit'' ''hello''
       \<or> spec_any_letter_case ''bye'' ''hello'')
   \<and> send_messages 2 [''hello'', ''Bye'', ''more''] = ([''hello''], Break)
   \<and> send_commands 2 [''hello'', ''EXIT'', ''more''] = ([''hello''], Break)
   \<and> send_messages 2 [''QUIT'', ''more''] = ([], Break)"
proof -
  have h: "\<not> (spec_any_letter_case ''quit'' ''hello'' \<or> spec_any_letter_case ''exit'' ''hello''
       \<or> spec_any_letter_case ''bye'' ''hello'')"
    by code_simp
  have q: "spec_any_letter_case ''quit'' ''QUIT''" by code_simp
  note t = send_loops_end_at_their_quit_words [of 1 "''hello''"]
  note u = send_loops_end_at_their_quit_words [of 2 "''QUIT''" "[''more'']"]
  have r1: "send_messages 1 [''Bye'', ''more''] = ([], Break)" by code_simp
  have r2: "send_commands 1 [''EXIT'', ''more''] = ([], Break)" by code_simp
  have "send_messages 2 [''hello'', ''Bye'', ''more''] = ([''hello''], Break)"
    using t [of "[''Bye'', ''more'']"] h r1 by (simp add: numeral_2_eq_2)
  moreover have "send_commands 2 [''hello'', ''EXIT'', ''more''] = ([''hello''], Break)"
    using t [of "[''EXIT'', ''more'']"] h r2 by (simp add: numeral_2_eq_2)
  moreover have "send_messages 2 [''QUIT'', ''more''] = ([], Break)"
    using u q by blast
  ultimately show ?thesis using h by blast
qed

section \<open>Client identifiers and the registry\<close>

lemma registry_stays_distinct:
  assumes "distinct (connected_clients s)" and "distinct (registrations ops)"
    and "set (registrations ops) \<inter> set (connected_clients s) = {}"
  shows "distinct (connected_clients (snd (run_registry_ops ops s)))"
  using assms
proof (induction ops arbitrary: s)
  case Nil
  then show ?case by simp
next
  case (Cons op ops)
  show ?case
  proof (cases op)
    case (Register websocket)
    let ?s1 = "s\<lparr>connected_clients := connected_clients s @ [websocket]\<rparr>"
    have "distinct (connected_clients (snd (run_registry_ops ops ?s1)))"
      using Cons.prems Register by (intro Cons.IH) auto
    then show ?thesis
      using Register by (auto simp: register_def split: prod.splits)
  next
    case (Deregister websocket)
    let ?s1 = "snd (handler_finally websocket s)"
    have "set (connected_clients ?s1) \<subseteq> set (connected_clients s)"
      using set_remove1_subset [of websocket "connected_clients s"]
      by (simp add: handler_finally_clients)
    moreover have "distinct (connected_clients ?s1)"
      using Cons.prems(1) by (simp add: handler_finally_clients)
    ultimately have "distinct (connected_clients (snd (run_registry_ops ops ?s1)))"
      using Cons.prems(2,3) Deregister
      by (intro Cons.IH) auto
    then show ?thesis
      using Deregister by simp
  qed
qed

lemma ids_of_registrations:
  assumes "only_registers ops"
  shows "fst (run_registry_ops ops s)
    = [length (connected_clients s) + 1 ..< length (connected_clients s) + 1 + length ops]"
  using assms
proof (induction ops arbitrary: s)
  case Nil
  show ?case by simp
next
  case (Cons op ops)
  then obtain websocket where op: "op = Register websocket"
    by (cases op) simp_all
  let ?s1 = "s\<lparr>connected_clients := connected_clients s @ [websocket]\<rparr>"
  define n where "n = length (connected_clients s)"
  have "fst (run_registry_ops ops ?s1)
    = [length (connected_clients ?s1) + 1 ..< length (connected_clients ?s1) + 1 + length ops]"
    using Cons.prems op by (intro Cons.IH) simp
  then have "fst (run_registry_ops ops ?s1) = [Suc (Suc n) ..< Suc (Suc n) + length ops]"
    by (simp add: n_def del: upt_Suc)
  moreover have "fst (run_registry_ops (op # ops) s) = Suc n # fst (run_registry_ops ops ?s1)"
    using op by (simp add: register_def n_def split: prod.splits)
  moreover have "[n + 1 ..< n + 1 + length (op # ops)]
      = Suc n # [Suc (Suc n) ..< Suc (Suc n) + length ops]"
    by (simp add: upt_conv_Cons del: upt_Suc)
  ultimately show ?case
    by (simp only: n_def)
qed

text \<open>
  C9 as the specification states it: every registration assigns a process-unique
  sequential identifier, so that over any sequence of register and deregister operations
  no two registrations receive the same identifier, and a connection appears at most once
  in the registry.

  The identifier is \<open>len(connected_clients)\<close> right after the append; the servers keep
  no count of the registrations made. After connections 1 and 2 have registered and
  connection 1 has left, the next connection is given the identifier 2 again.
\<close>

theorem client_id_repeats_after_a_deregistration:
  "fst (run_registry_ops [Register (1::nat), Register 2, Deregister 1, Register 3]
          \<lparr>connected_clients = [], wire = []\<rparr>) = [1, 2, 2]
   \<and> \<not> distinct (fst (run_registry_ops [Register (1::nat), Register 2, Deregister 1, Register 3]
          \<lparr>connected_clients = [], wire = []\<rparr>))"
  by code_simp

text \<open>
  C9, amended. A registration assigns the new connection the length of the registry
  right after it is added, one more than the number of connections registered at that
  moment. Over a run of registrations with no deregistration in it the identifiers are
  consecutive and pairwise distinct. Over any sequence of register and deregister
  operations in which every connection object is registered at most once (and none of
  them is in the registry at the start), a connection appears at most once in the registry.
\<close>

theorem client_id_is_the_registry_length:
  assumes "distinct (connected_clients s)" and "distinct (registrations ops)"
    and "set (registrations ops) \<inter> set (connected_clients s) = {}"
  shows "fst (register websocket s) = length (connected_clients s) + 1
    \<and> distinct (connected_clients (snd (run_registry_ops ops s)))
    \<and> (only_registers ops \<longrightarrow>
         fst (run_registry_ops ops s)
           = [length (connected_clients s) + 1 ..< length (connected_clients s) + 1 + length ops]
         \<and> distinct (fst (run_registry_ops ops s)))"
proof -
  have "fst (register websocket s) = length (connected_clients s) + 1"
    by (simp add: register_def)
  moreover have "distinct (connected_clients (snd (run_registry_ops ops s)))"
    using assms by (rule registry_stays_distinct)
  moreover have "fst (run_registry_ops ops s)
           = [length (connected_clients s) + 1 ..< length (connected_clients s) + 1 + length ops]
         \<and> distinct (fst (run_registry_ops ops s))"
    if "only_registers ops"
    using ids_of_registrations [OF that, of s] by simp
  ultimately show ?thesis by blast
qed

theorem client_id_is_the_registry_length_witness:
  "distinct ([] :: nat list) \<and> distinct (registrations [Register (7::nat), Register 8, Deregister 7, Register 9])
   \<and> set (registrations [Register (7::nat), Register 8, Deregister 7, Register 9]) \<inter> set [] = {}
   \<and> distinct (connected_clients (snd (run_registry_ops
        [Register (7::nat), Register 8, Deregister 7, Register 9]
        \<lparr>connected_clients = [], wire = []\<rparr>)))
   \<and> only_registers [Register (7::nat), Register 8, Register 9]
   \<and> fst (run_registry_ops [Register (7::nat), Register 8, Register 9]
        \<lparr>connected_clients = [], wire = []\<rparr>) = [1, 2, 3]"
proof -
  let ?s = "\<lparr>connected_clients = [] :: nat list, wire = []\<rparr>"
  let ?ops = "[Register (7::nat), Register 8, Deregister 7, Register 9]"
  let ?regs = "[Register (7::nat), Register 8, Register 9]"
  have a: "distinct (connected_clients ?s)" by simp
  have b: "distinct (registrations ?ops)" "distinct (registrations ?regs)" by simp_all
  have c: "set (registrations ?ops) \<inter> set (connected_clients ?s) = {}"
    "set (registrations ?regs) \<inter> set (connected_clients ?s) = {}" by simp_all
  have o: "only_registers ?regs" by simp
  have u: "[Suc 0 ..< 4] = [1, 2, 3]" by code_simp
  note t1 = client_id_is_the_registry_length [OF a b(1) c(1)]
  note t2 = client_id_is_the_registry_length [OF a b(2) c(2)]
  have "distinct (connected_clients (snd (run_registry_ops ?ops ?s)))"
    using t1 by blast
  moreover have "fst (run_registry_ops ?regs ?s) = [1, 2, 3]"
    using t2 o u by simp
  ultimately show ?thesis using o by simp
qed

end
